theory Spec2Isabelle
  imports Main "HOL-Library.Sublist"
begin

section \<open>Python strings and dictionaries\<close>

text \<open>
  A Python \<open>str\<close> is modelled as a \<open>string\<close>, one \<open>char\<close> per code point; the
  model therefore covers the code points below 256. Offsets, \<open>max_snippets\<close>,
  \<open>snippet_radius\<close> and \<open>max_chars\<close> are Python integers, hence \<open>int\<close>.
\<close>

definition py_isspace :: "char \<Rightarrow> bool" where
  \<comment> \<open>\<open>str.isspace\<close> on the code points below 256: TAB..CR, FS..US, SPACE, NEL, NBSP.\<close>
  "py_isspace c =
     (let n = (of_char c :: nat)
      in (9 \<le> n \<and> n \<le> 13) \<or> (28 \<le> n \<and> n \<le> 32) \<or> n = 133 \<or> n = 160)"

definition py_strip :: "string \<Rightarrow> string" where
  \<comment> \<open>\<open>s.strip()\<close>: leading and trailing whitespace removed.\<close>
  "py_strip s = rev (dropWhile py_isspace (rev (dropWhile py_isspace s)))"

definition py_lower_char :: "char \<Rightarrow> char" where
  \<comment> \<open>\<open>str.lower\<close> on one code point below 256: A..Z and the Latin-1 capitals.\<close>
  "py_lower_char c =
     (let n = (of_char c :: nat)
      in if (65 \<le> n \<and> n \<le> 90) \<or> (192 \<le> n \<and> n \<le> 222 \<and> n \<noteq> 215)
         then char_of (n + 32) else c)"

definition py_lower :: "string \<Rightarrow> string" where
  "py_lower s = map py_lower_char s"

function py_split :: "string \<Rightarrow> string list" where
  \<comment> \<open>\<open>s.split()\<close>: the maximal runs of non-whitespace characters.\<close>
  "py_split s =
     (let r = dropWhile py_isspace s
      in if r = [] then []
         else takeWhile (\<lambda>c. \<not> py_isspace c) r
                # py_split (dropWhile (\<lambda>c. \<not> py_isspace c) r))"
  by pat_completeness auto
termination
proof (relation "measure length", goal_cases)
  case 1
  show ?case by simp
next
  case (2 s r)
  have "length (dropWhile (\<lambda>c. \<not> py_isspace c) r) < length r"
  proof (cases r)
    case Nil
    with 2 show ?thesis by simp
  next
    case (Cons c cs)
    with 2 have "\<not> py_isspace c"
      by (metis hd_dropWhile list.sel(1))
    with Cons show ?thesis
      by (simp add: le_imp_less_Suc length_dropWhile_le)
  qed
  moreover have "length r \<le> length s"
    using 2 by (simp add: length_dropWhile_le)
  ultimately show ?case by simp
qed

declare py_split.simps [simp del]

fun py_join :: "string \<Rightarrow> string list \<Rightarrow> string" where
  \<comment> \<open>\<open>sep.join(parts)\<close>\<close>
  "py_join sep [] = []"
| "py_join sep [x] = x"
| "py_join sep (x # y # ys) = x @ sep @ py_join sep (y # ys)"

definition py_slice :: "'a list \<Rightarrow> int \<Rightarrow> int \<Rightarrow> 'a list" where
  \<comment> \<open>\<open>xs[lo:hi]\<close>: a negative bound counts from the end, then both are clamped
      to \<open>0..len(xs)\<close>.\<close>
  "py_slice xs lo hi =
     (let n = int (length xs);
          l = (if lo < 0 then max 0 (n + lo) else min lo n);
          h = (if hi < 0 then max 0 (n + hi) else min hi n)
      in take (nat h - nat l) (drop (nat l) xs))"

function find_at :: "'a list \<Rightarrow> 'a list \<Rightarrow> nat \<Rightarrow> int" where
  \<comment> \<open>The lowest index \<open>j \<ge> i\<close> with \<open>text[j:j+len(q)] == q\<close>, or \<open>-1\<close>.\<close>
  "find_at text q i =
     (if length text < i + length q then - 1
      else if take (length q) (drop i text) = q then int i
      else find_at text q (Suc i))"
  by pat_completeness auto
termination
  by (relation "measure (\<lambda>(text, q, i). Suc (length text) - i)") auto

declare find_at.simps [simp del]

definition py_find :: "'a list \<Rightarrow> 'a list \<Rightarrow> int \<Rightarrow> int" where
  \<comment> \<open>\<open>text.find(q, start)\<close>; a negative \<open>start\<close> counts from the end.\<close>
  "py_find text q start =
     (let n = int (length text);
          st = (if start < 0 then max 0 (n + start) else start)
      in find_at text q (nat st))"

fun py_in :: "'a list \<Rightarrow> 'a list \<Rightarrow> bool" where
  \<comment> \<open>\<open>k in s\<close> on strings: \<open>k\<close> occurs in \<open>s\<close> as a contiguous block.\<close>
  "py_in k [] = (k = [])"
| "py_in k (c # cs) = (prefix k (c # cs) \<or> py_in k cs)"

datatype pyval = VStr string | VInt int | VBool bool | VNone

fun is_str :: "pyval \<Rightarrow> bool" where
  \<comment> \<open>\<open>isinstance(v, str)\<close>\<close>
  "is_str (VStr _) = True"
| "is_str _ = False"

text \<open>
  The content of the session state is a mapping with unique keys, kept in insertion
  order; assigning to a key that is present keeps its position.
\<close>

type_synonym state = "(string \<times> pyval) list"

text \<open>
  The class of the object \<open>tool_context.state\<close> is not part of the repository's sources
  and is a parameter of the model. The tools are declared for the framework's
  \<open>ToolContext\<close>, whose state is a \<open>State\<close> object: it provides \<open>get\<close> and assignment by key,
  is always truthy, and has no \<open>items\<close> method, so that asking for \<open>items()\<close> raises
  \<open>AttributeError\<close>. A plain \<open>dict\<close> put in its place provides all three.
\<close>

datatype py_error = AttributeError

datatype state_class = AdkState | PlainDict

definition state_items :: "state_class \<Rightarrow> state \<Rightarrow> py_error + (string \<times> pyval) list" where
  \<comment> \<open>\<open>(tool_context.state or {}).items()\<close>\<close>
  "state_items cls st = (case cls of AdkState \<Rightarrow> Inl AttributeError | PlainDict \<Rightarrow> Inr st)"

fun dict_set :: "'k \<Rightarrow> 'v \<Rightarrow> ('k \<times> 'v) list \<Rightarrow> ('k \<times> 'v) list" where
  \<comment> \<open>\<open>d[k] = v\<close>\<close>
  "dict_set k v [] = [(k, v)]"
| "dict_set k v ((k', v') # kvs) =
     (if k' = k then (k, v) # kvs else (k', v') # dict_set k v kvs)"

definition dict_get :: "('k \<times> 'v) list \<Rightarrow> 'k \<Rightarrow> 'v \<Rightarrow> 'v" where
  \<comment> \<open>\<open>d.get(k, default)\<close>\<close>
  "dict_get d k dflt = (case map_of d k of None \<Rightarrow> dflt | Some v \<Rightarrow> v)"

section \<open>The evidence search tool\<close>

record snippet =
  s_text :: string
  s_start :: int
  s_end :: int

record match =
  m_memory_key :: string
  m_snippets :: "snippet list"

datatype search_result =
    SearchError string \<comment> \<open>\<open>{"status": "error", "error_message": ...}\<close>\<close>
  | SearchSuccess string "match list" \<comment> \<open>\<open>{"status": "success", "query": q, "matches": ...}\<close>\<close>

fun search_status :: "search_result \<Rightarrow> string" where
  "search_status (SearchError _) = ''error''"
| "search_status (SearchSuccess _ _) = ''success''"

text \<open>
  The \<open>while True\<close> loop of \<open>search_memory\<close>, with its variables \<open>start\<close>,
  \<open>found_count\<close> and \<open>snippets\<close>. An iteration is followed by another one only when
  \<open>found_count\<close>, just incremented, is still below \<open>max_snippets\<close>.
\<close>

function scan_loop ::
  "string \<Rightarrow> string \<Rightarrow> int \<Rightarrow> int \<Rightarrow> int \<Rightarrow> int \<Rightarrow> snippet list \<Rightarrow> snippet list" where
  "scan_loop text q max_snippets snippet_radius start found_count snips =
     (let idx = py_find text q start
      in if idx = - 1 then snips
         else
           let s = max 0 (idx - snippet_radius);
               e = min (int (length text)) (idx + int (length q) + snippet_radius);
               snip = py_slice text s e;
               snips' = snips @ [\<lparr>s_text = snip, s_start = idx, s_end = idx + int (length q)\<rparr>];
               found_count' = found_count + 1
           in if found_count' \<ge> max_snippets then snips'
              else scan_loop text q max_snippets snippet_radius
                     (idx + int (length q)) found_count' snips')"
  by pat_completeness auto
termination
  by (relation "measure (\<lambda>(text, q, max_snippets, snippet_radius, start, found_count, snips).
                   nat (max_snippets - found_count))") auto

declare scan_loop.simps [simp del]

fun search_keys :: "state \<Rightarrow> string \<Rightarrow> int \<Rightarrow> int \<Rightarrow> string list \<Rightarrow> match list" where
  \<comment> \<open>The \<open>for key in keys_to_search\<close> loop; the result is \<open>matches\<close> in append order.\<close>
  "search_keys st q max_snippets snippet_radius [] = []"
| "search_keys st q max_snippets snippet_radius (key # keys) =
     (case dict_get st key (VStr []) of
        VStr text \<Rightarrow>
          if text = [] then search_keys st q max_snippets snippet_radius keys
          else
            let snips = scan_loop text q max_snippets snippet_radius 0 0 []
            in if snips \<noteq> []
               then \<lparr>m_memory_key = key, m_snippets = snips\<rparr>
                      # search_keys st q max_snippets snippet_radius keys
               else search_keys st q max_snippets snippet_radius keys
      | _ \<Rightarrow> search_keys st q max_snippets snippet_radius keys)"

definition keys_to_search ::
  "state_class \<Rightarrow> string list option \<Rightarrow> state \<Rightarrow> py_error + string list" where
  \<comment> \<open>\<open>memory_keys or [k for k, v in (tool_context.state or {}).items() if isinstance(v, str)]\<close>:
      the right-hand side is evaluated only when \<open>memory_keys\<close> is \<open>None\<close> or empty.\<close>
  "keys_to_search cls memory_keys st =
     (case memory_keys of
        Some (k # ks) \<Rightarrow> Inr (k # ks)
      | _ \<Rightarrow>
          (case state_items cls st of
             Inl err \<Rightarrow> Inl err
           | Inr kvs \<Rightarrow> Inr (map fst (filter (\<lambda>(k, v). is_str v) kvs))))"

text \<open>
  \<open>search_memory\<close> takes the class of the state object as its first argument. Its result
  is the dictionary it returns, or the exception it raises.
\<close>

definition search_memory ::
  "state_class \<Rightarrow> string \<Rightarrow> string list option \<Rightarrow> int \<Rightarrow> int \<Rightarrow> state option
     \<Rightarrow> py_error + search_result" where
  "search_memory cls query memory_keys max_snippets snippet_radius tool_context =
     (case tool_context of
        None \<Rightarrow> Inr (SearchError ''Session context missing'')
      | Some st \<Rightarrow>
          let q = py_strip query
          in if q = [] then Inr (SearchError ''Query string is empty'')
             else (case keys_to_search cls memory_keys st of
                     Inl err \<Rightarrow> Inl err
                   | Inr keys \<Rightarrow>
                       Inr (SearchSuccess q
                              (search_keys st q max_snippets snippet_radius keys))))"

section \<open>The PDF reader tool\<close>

text \<open>
  What \<open>read_pdf\<close> finds at a path is an input of the model. A path that
  \<open>os.path.exists\<close> rejects is absent from the file system; a file on which opening,
  parsing or text extraction raises an \<open>Exception\<close> is \<open>Unreadable\<close>, with the name of
  the exception's class; otherwise the file gives, page by page, what \<open>extract_text()\<close>
  returns (a string or \<open>None\<close>). \<open>read_pdf\<close> returns its result dictionary together with
  the session state of the tool context after the call.
\<close>

datatype pdf_file = Unreadable string | Pdf "string option list"

type_synonym file_system = "string \<rightharpoonup> pdf_file"

datatype read_result =
    ReadError string \<comment> \<open>\<open>{"status": "error", "error_message": ...}\<close>\<close>
  | ReadSuccess string int \<comment> \<open>\<open>{"status": "success", "message": ..., "extracted_length": ...}\<close>\<close>
  | ReadNotSaved string \<comment> \<open>\<open>{"status": "error", "message": ...}\<close>\<close>

fun read_status :: "read_result \<Rightarrow> string" where
  "read_status (ReadError _) = ''error''"
| "read_status (ReadSuccess _ _) = ''success''"
| "read_status (ReadNotSaved _) = ''error''"

definition CV_MEMORY_KEY :: string where
  "CV_MEMORY_KEY = ''pdf_resume_text''"

definition JD_MEMORY_KEY :: string where
  "JD_MEMORY_KEY = ''job_description_text''"

definition TRUNCATED :: string where
  "TRUNCATED = ''\<newline>...[TRUNCATED]''"

definition page_chunk :: "string option \<Rightarrow> string" where
  \<comment> \<open>\<open>" ".join((page.extract_text() or "").split())\<close>\<close>
  "page_chunk t = py_join '' '' (py_split (case t of None \<Rightarrow> [] | Some txt \<Rightarrow> txt))"

definition full_content :: "string option list \<Rightarrow> string" where
  \<comment> \<open>\<open>"\n".join(chunks).strip()\<close>\<close>
  "full_content pages = py_strip (py_join ''\<newline>'' (map page_chunk pages))"

definition truncated_content :: "string \<Rightarrow> int \<Rightarrow> string" where
  \<comment> \<open>\<open>(full_content[:max_chars] + "\n...[TRUNCATED]") if len(full_content) > max_chars
      else full_content\<close>\<close>
  "truncated_content full max_chars =
     (if int (length full) > max_chars then py_slice full 0 max_chars @ TRUNCATED else full)"

definition looks_like_resume :: "string \<Rightarrow> bool" where
  \<comment> \<open>\<open>any(k in mk for k in ("cv", "resume", "candidate"))\<close>\<close>
  "looks_like_resume mk = list_ex (\<lambda>k. py_in k mk) [''cv'', ''resume'', ''candidate'']"

definition looks_like_jd :: "string \<Rightarrow> bool" where
  \<comment> \<open>\<open>any(k in mk for k in ("job", "jd", "description"))\<close>\<close>
  "looks_like_jd mk = list_ex (\<lambda>k. py_in k mk) [''job'', ''jd'', ''description'']"

definition save_content :: "state \<Rightarrow> string \<Rightarrow> string \<Rightarrow> state" where
  \<comment> \<open>The three assignments to \<open>tool_context.state\<close>, in the order of the source.\<close>
  "save_content st memory_key content =
     (let st1 = dict_set memory_key (VStr content) st;
          mk = py_lower memory_key;
          st2 = (if looks_like_resume mk then dict_set CV_MEMORY_KEY (VStr content) st1 else st1);
          st3 = (if looks_like_jd mk then dict_set JD_MEMORY_KEY (VStr content) st2 else st2)
      in st3)"

definition saved_message :: "string \<Rightarrow> string" where
  "saved_message memory_key =
     ''PDF text extracted successfully and saved to session memory under key: ''
       @ [CHR 0x27] @ memory_key @ [CHR 0x27] @ ''.''"

definition read_pdf ::
  "file_system \<Rightarrow> string \<Rightarrow> string \<Rightarrow> int \<Rightarrow> state option \<Rightarrow> read_result \<times> state option" where
  "read_pdf fs file_path memory_key max_chars tool_context =
     (case fs file_path of
        None \<Rightarrow> (ReadError (''File not found at path: '' @ file_path), tool_context)
      | Some (Unreadable exn) \<Rightarrow>
          (ReadError (''Failed to read PDF. Internal error: '' @ exn), tool_context)
      | Some (Pdf pages) \<Rightarrow>
          let content = truncated_content (full_content pages) max_chars
          in (case tool_context of
                Some st \<Rightarrow>
                  (ReadSuccess (saved_message memory_key) (int (length content)),
                   Some (save_content st memory_key content))
              | None \<Rightarrow>
                  (ReadNotSaved ''Session context missing, content not saved to memory.'', None)))"

section \<open>The agents and their retry options\<close>

record http_retry_options =
  attempts :: int
  exp_base :: int
  initial_delay :: int
  http_status_codes :: "int list"

definition retry_config :: http_retry_options where
  "retry_config =
     \<lparr>attempts = 5, exp_base = 7, initial_delay = 1, http_status_codes = [429, 500, 503, 504]\<rparr>"

record gemini =
  model_id :: string
  retry_options :: "http_retry_options option"

datatype tool = pdf_reader_tool | search_memory_tool

text \<open>An LLM agent, without its instruction text: no property below depends on the prompt.\<close>

record llm_agent =
  agent_name :: string
  agent_model :: gemini
  agent_tools :: "tool list"
  output_key :: string

datatype agent =
    CapstoneSubAgent llm_agent
  | ParallelAgent string "agent list"
  | SequentialAgent string "agent list"

definition cv_loader_agent :: llm_agent where
  "cv_loader_agent =
     \<lparr>agent_name = ''cv_loader_agent'',
      agent_model = \<lparr>model_id = ''gemini-2.5-flash'', retry_options = Some retry_config\<rparr>,
      agent_tools = [pdf_reader_tool],
      output_key = ''cv_loader_result''\<rparr>"

definition jd_loader_agent :: llm_agent where
  "jd_loader_agent =
     \<lparr>agent_name = ''jd_loader_agent'',
      agent_model = \<lparr>model_id = ''gemini-2.5-flash'', retry_options = Some retry_config\<rparr>,
      agent_tools = [pdf_reader_tool],
      output_key = ''jd_loader_result''\<rparr>"

definition cv_screening_agent :: llm_agent where
  "cv_screening_agent =
     \<lparr>agent_name = ''cv_screening_agent'',
      agent_model = \<lparr>model_id = ''gemini-2.5-flash'', retry_options = Some retry_config\<rparr>,
      agent_tools = [search_memory_tool],
      output_key = ''cv_screening_result''\<rparr>"

definition talent_matching_agent :: llm_agent where
  "talent_matching_agent =
     \<lparr>agent_name = ''talent_matching_agent'',
      agent_model = \<lparr>model_id = ''gemini-2.5-flash'', retry_options = Some retry_config\<rparr>,
      agent_tools = [search_memory_tool],
      output_key = ''talent_matching_result''\<rparr>"

definition write_parallel_agent :: agent where
  "write_parallel_agent =
     ParallelAgent ''write_parallel_agent''
       [CapstoneSubAgent cv_loader_agent, CapstoneSubAgent jd_loader_agent]"

definition root_agent :: agent where
  "root_agent =
     SequentialAgent ''root_agent''
       [write_parallel_agent,
        CapstoneSubAgent cv_screening_agent,
        CapstoneSubAgent talent_matching_agent]"

fun llm_agents :: "agent \<Rightarrow> llm_agent list" where
  \<comment> \<open>The agents of a tree that call the model, in declaration order.\<close>
  "llm_agents (CapstoneSubAgent a) = [a]"
| "llm_agents (ParallelAgent n subs) = concat (map llm_agents subs)"
| "llm_agents (SequentialAgent n subs) = concat (map llm_agents subs)"

section \<open>Session setup\<close>

record session =
  app_name :: string
  user_id :: string
  session_id :: string
  session_state :: state

text \<open>
  Modelled from the spec: the in-memory session service of the agent framework, which is
  not part of the repository's sources. The spec describes it as a store of named sessions
  that can be reopened by identifier within one process; it is modelled as a map from
  (app name, user id, session id) to the session stored there. \<open>get_session\<close> looks the
  identifier up, \<open>create_session\<close> stores a session with an empty state under it.
\<close>

type_synonym session_service = "string \<times> string \<times> string \<rightharpoonup> session"

definition get_session :: "session_service \<Rightarrow> string \<Rightarrow> string \<Rightarrow> string \<Rightarrow> session option" where
  "get_session svc app user sid = svc (app, user, sid)"

definition create_session ::
  "session_service \<Rightarrow> string \<Rightarrow> string \<Rightarrow> string \<Rightarrow> session \<times> session_service" where
  "create_session svc app user sid =
     (let s = \<lparr>app_name = app, user_id = user, session_id = sid, session_state = []\<rparr>
      in (s, svc((app, user, sid) \<mapsto> s)))"

definition ensure_session ::
  "session_service \<Rightarrow> string \<Rightarrow> string \<Rightarrow> string \<Rightarrow> session \<times> session_service" where
  \<comment> \<open>The get-or-create sequence of \<open>main\<close>: \<open>get_session\<close>, and \<open>create_session\<close>
      only \<open>if not session\<close>.\<close>
  "ensure_session svc app user sid =
     (case get_session svc app user sid of
        Some s \<Rightarrow> (s, svc)
      | None \<Rightarrow> create_session svc app user sid)"

definition APP_NAME :: string where
  "APP_NAME = ''rolefit_analyzer_agent''"

definition main_session_setup :: "session_service \<Rightarrow> session \<times> session_service" where
  "main_session_setup svc = ensure_session svc APP_NAME ''debug_user_id'' ''debug_session_id''"

section \<open>Notions used in the statements\<close>

definition text_window :: "'a list \<Rightarrow> int \<Rightarrow> int \<Rightarrow> 'a list" where
  \<comment> \<open>The characters of \<open>xs\<close> at the offsets \<open>lo, lo + 1, ..., hi - 1\<close>, for \<open>0 \<le> lo\<close>;
      none when \<open>hi \<le> lo\<close>.\<close>
  "text_window xs lo hi = take (nat (hi - lo)) (drop (nat lo) xs)"

definition occurrence :: "string \<Rightarrow> string \<Rightarrow> int \<Rightarrow> int \<Rightarrow> snippet \<Rightarrow> bool" where
  \<comment> \<open>What the loop records for a match of \<open>q\<close> found at or after \<open>start\<close>.\<close>
  "occurrence tx q snippet_radius start a =
     (start \<le> s_start a \<and> s_end a = s_start a + int (length q) \<and>
      s_end a \<le> int (length tx) \<and>
      take (length q) (drop (nat (s_start a)) tx) = q \<and>
      s_text a = py_slice tx (max 0 (s_start a - snippet_radius))
                   (min (int (length tx)) (s_end a + snippet_radius)))"

definition ordered_apart :: "snippet \<Rightarrow> snippet \<Rightarrow> bool" where
  \<comment> \<open>The range of \<open>a\<close> ends before the range of \<open>b\<close> begins, and begins earlier.\<close>
  "ordered_apart a b = (s_end a \<le> s_start b \<and> s_start a < s_start b)"

section \<open>Substring search\<close>

lemma find_at_found:
  "find_at tx q i \<noteq> - 1 \<Longrightarrow>
     int i \<le> find_at tx q i \<and>
     find_at tx q i + int (length q) \<le> int (length tx) \<and>
     take (length q) (drop (nat (find_at tx q i)) tx) = q"
proof (induction tx q i rule: find_at.induct)
  case (1 tx q i)
  show ?case
  proof (cases "length tx < i + length q")
    case True
    with "1.prems" show ?thesis by (simp add: find_at.simps [of tx q i])
  next
    case False
    note inb = this
    show ?thesis
    proof (cases "take (length q) (drop i tx) = q")
      case True
      with inb show ?thesis by (simp add: find_at.simps [of tx q i])
    next
      case False
      with inb have eq: "find_at tx q i = find_at tx q (Suc i)"
        by (simp add: find_at.simps [of tx q i])
      with "1.prems" have "find_at tx q (Suc i) \<noteq> - 1" by simp
      with "1.IH" [OF inb False] show ?thesis unfolding eq by simp
    qed
  qed
qed

lemma py_find_found:
  assumes "0 \<le> start" and "py_find tx q start \<noteq> - 1"
  shows "start \<le> py_find tx q start"
    and "py_find tx q start + int (length q) \<le> int (length tx)"
    and "take (length q) (drop (nat (py_find tx q start)) tx) = q"
proof -
  from assms have eq: "py_find tx q start = find_at tx q (nat start)"
    by (simp add: py_find_def)
  with assms(2) have "find_at tx q (nat start) \<noteq> - 1" by simp
  from find_at_found [OF this] assms(1)
  show "start \<le> py_find tx q start"
    and "py_find tx q start + int (length q) \<le> int (length tx)"
    and "take (length q) (drop (nat (py_find tx q start)) tx) = q"
    unfolding eq by simp_all
qed

section \<open>The scan loop\<close>

lemma occurrence_mono: "occurrence tx q r start a \<Longrightarrow> start' \<le> start \<Longrightarrow> occurrence tx q r start' a"
  by (simp add: occurrence_def)

lemma scan_loop_elems:
  "0 \<le> start \<Longrightarrow> a \<in> set (scan_loop tx q max_snippets snippet_radius start found_count snips) \<Longrightarrow>
   a \<in> set snips \<or> occurrence tx q snippet_radius start a"
proof (induction tx q max_snippets snippet_radius start found_count snips rule: scan_loop.induct)
  case (1 tx q max_snippets snippet_radius start found_count snips)
  define idx where "idx = py_find tx q start"
  show ?case
  proof (cases "idx = - 1")
    case True
    with 1(3) show ?thesis
      by (simp add: idx_def scan_loop.simps [of tx q max_snippets snippet_radius start])
  next
    case False
    note found = py_find_found [OF 1(2), of tx q, folded idx_def, OF False]
    define sn where "sn = \<lparr>s_text = py_slice tx (max 0 (idx - snippet_radius))
        (min (int (length tx)) (idx + int (length q) + snippet_radius)),
        s_start = idx, s_end = idx + int (length q)\<rparr>"
    have occ: "occurrence tx q snippet_radius start sn"
      using found by (simp add: occurrence_def sn_def)
    show ?thesis
    proof (cases "found_count + 1 \<ge> max_snippets")
      case True
      with False 1(3) have "a \<in> set (snips @ [sn])"
        by (simp add: idx_def sn_def Let_def scan_loop.simps [of tx q max_snippets snippet_radius start])
      with occ show ?thesis by auto
    next
      case False
      note more = this
      have res: "scan_loop tx q max_snippets snippet_radius start found_count snips =
                 scan_loop tx q max_snippets snippet_radius (idx + int (length q))
                   (found_count + 1) (snips @ [sn])"
        using \<open>idx \<noteq> - 1\<close> more
        by (simp add: idx_def sn_def Let_def scan_loop.simps [of tx q max_snippets snippet_radius start])
      have nn: "0 \<le> idx + int (length q)" using found(1) 1(2) by simp
      have "a \<in> set (snips @ [sn]) \<or> occurrence tx q snippet_radius (idx + int (length q)) a"
        using 1(1) [OF idx_def \<open>idx \<noteq> - 1\<close> refl refl refl refl refl more] nn 1(3)
        unfolding res sn_def by simp
      then show ?thesis
        using occ found(1) by (auto intro: occurrence_mono)
    qed
  qed
qed

lemma scan_loop_ordered:
  "q \<noteq> [] \<Longrightarrow> 0 \<le> start \<Longrightarrow> sorted_wrt ordered_apart snips \<Longrightarrow>
   (\<forall>a \<in> set snips. s_start a < s_end a \<and> s_end a \<le> start) \<Longrightarrow>
   sorted_wrt ordered_apart (scan_loop tx q max_snippets snippet_radius start found_count snips)"
proof (induction tx q max_snippets snippet_radius start found_count snips rule: scan_loop.induct)
  case (1 tx q max_snippets snippet_radius start found_count snips)
  define idx where "idx = py_find tx q start"
  show ?case
  proof (cases "idx = - 1")
    case True
    with "1.prems"(3) show ?thesis
      by (simp add: idx_def scan_loop.simps [of tx q max_snippets snippet_radius start])
  next
    case False
    note found = py_find_found [OF "1.prems"(2), of tx q, folded idx_def, OF False]
    define sn where "sn = \<lparr>s_text = py_slice tx (max 0 (idx - snippet_radius))
        (min (int (length tx)) (idx + int (length q) + snippet_radius)),
        s_start = idx, s_end = idx + int (length q)\<rparr>"
    have lenq: "0 < int (length q)" using "1.prems"(1) by simp
    have "\<forall>a \<in> set snips. ordered_apart a sn"
      using "1.prems"(4) found(1) by (fastforce simp: ordered_apart_def sn_def)
    with "1.prems"(3) have sorted': "sorted_wrt ordered_apart (snips @ [sn])"
      by (simp add: sorted_wrt_append)
    have inv': "\<forall>a \<in> set (snips @ [sn]). s_start a < s_end a \<and> s_end a \<le> idx + int (length q)"
      using "1.prems"(4) found(1) lenq by (fastforce simp: sn_def)
    show ?thesis
    proof (cases "found_count + 1 \<ge> max_snippets")
      case True
      with False have "scan_loop tx q max_snippets snippet_radius start found_count snips = snips @ [sn]"
        by (simp add: idx_def sn_def Let_def scan_loop.simps [of tx q max_snippets snippet_radius start])
      with sorted' show ?thesis by simp
    next
      case False
      note more = this
      have res: "scan_loop tx q max_snippets snippet_radius start found_count snips =
                 scan_loop tx q max_snippets snippet_radius (idx + int (length q))
                   (found_count + 1) (snips @ [sn])"
        using \<open>idx \<noteq> - 1\<close> more
        by (simp add: idx_def sn_def Let_def scan_loop.simps [of tx q max_snippets snippet_radius start])
      have nn: "0 \<le> idx + int (length q)" using found(1) "1.prems"(2) by simp
      show ?thesis
        using "1.IH" [OF idx_def \<open>idx \<noteq> - 1\<close> refl refl refl refl refl more "1.prems"(1) nn]
          sorted' inv'
        unfolding res sn_def by simp
    qed
  qed
qed

lemma scan_loop_count:
  "int (length (scan_loop tx q max_snippets snippet_radius start found_count snips))
     \<le> int (length snips) + max 1 (max_snippets - found_count)"
proof (induction tx q max_snippets snippet_radius start found_count snips rule: scan_loop.induct)
  case (1 tx q max_snippets snippet_radius start found_count snips)
  define idx where "idx = py_find tx q start"
  show ?case
  proof (cases "idx = - 1")
    case True
    then show ?thesis
      by (simp add: idx_def scan_loop.simps [of tx q max_snippets snippet_radius start])
  next
    case False
    define sn where "sn = \<lparr>s_text = py_slice tx (max 0 (idx - snippet_radius))
        (min (int (length tx)) (idx + int (length q) + snippet_radius)),
        s_start = idx, s_end = idx + int (length q)\<rparr>"
    show ?thesis
    proof (cases "found_count + 1 \<ge> max_snippets")
      case True
      with False have "scan_loop tx q max_snippets snippet_radius start found_count snips = snips @ [sn]"
        by (simp add: idx_def sn_def Let_def scan_loop.simps [of tx q max_snippets snippet_radius start])
      then show ?thesis by simp
    next
      case more: False
      have res: "scan_loop tx q max_snippets snippet_radius start found_count snips =
                 scan_loop tx q max_snippets snippet_radius (idx + int (length q))
                   (found_count + 1) (snips @ [sn])"
        using False more
        by (simp add: idx_def sn_def Let_def scan_loop.simps [of tx q max_snippets snippet_radius start])
      show ?thesis
        using "1.IH" [OF idx_def False refl refl refl refl refl more] more
        unfolding res sn_def by simp
    qed
  qed
qed

lemma search_keys_entry:
  "m \<in> set (search_keys st q max_snippets snippet_radius keys) \<Longrightarrow>
   \<exists>tx. map_of st (m_memory_key m) = Some (VStr tx) \<and> tx \<noteq> [] \<and>
        m_memory_key m \<in> set keys \<and>
        m_snippets m = scan_loop tx q max_snippets snippet_radius 0 0 []"
proof (induction keys)
  case Nil
  then show ?case by simp
next
  case (Cons key keys)
  show ?case
  proof (cases "m \<in> set (search_keys st q max_snippets snippet_radius keys)")
    case True
    with Cons.IH show ?thesis by auto
  next
    case False
    with Cons.prems show ?thesis
      by (auto simp: dict_get_def Let_def split: pyval.splits option.splits if_splits)
  qed
qed

lemma search_keys_keys:
  "subseq (map m_memory_key (search_keys st q max_snippets snippet_radius keys)) keys"
proof (induction keys)
  case Nil
  show ?case by simp
next
  case (Cons key keys)
  then show ?case
    by (auto simp: Let_def split: pyval.splits)
qed

lemma search_memory_success:
  assumes "search_memory cls query memory_keys max_snippets snippet_radius tool_context
             = Inr (SearchSuccess q matches)"
  shows "\<exists>st keys. tool_context = Some st \<and> q = py_strip query \<and> q \<noteq> [] \<and>
          keys_to_search cls memory_keys st = Inr keys \<and>
          matches = search_keys st q max_snippets snippet_radius keys"
  using assms
  by (auto simp: search_memory_def Let_def split: option.splits if_splits sum.splits)

lemma matches_per_key_bound:
  assumes "search_memory cls query memory_keys max_snippets snippet_radius tool_context
             = Inr (SearchSuccess q matches)"
      and "m \<in> set matches"
  shows "int (length (m_snippets m)) \<le> max 1 max_snippets"
proof -
  from search_memory_success [OF assms(1)] obtain st keys where
    matches: "matches = search_keys st q max_snippets snippet_radius keys"
    by blast
  from search_keys_entry [OF assms(2) [unfolded matches]] obtain tx where
    "m_snippets m = scan_loop tx q max_snippets snippet_radius 0 0 []"
    by blast
  with scan_loop_count [of tx q max_snippets snippet_radius 0 0 "[]"] show ?thesis
    by simp
qed

lemma py_slice_window:
  "0 \<le> lo \<Longrightarrow> 0 \<le> hi \<Longrightarrow> hi \<le> int (length xs) \<Longrightarrow> py_slice xs lo hi = text_window xs lo hi"
  by (auto simp: py_slice_def text_window_def Let_def min_def nat_diff_distrib')

lemma py_slice_sublist: "sublist (py_slice xs lo hi) xs"
  unfolding py_slice_def Let_def
  by (meson sublist_drop sublist_order.order_trans sublist_take)

section \<open>Stripping, dictionaries and slices\<close>

lemma py_strip_empty_iff: "py_strip s = [] \<longleftrightarrow> (\<forall>c \<in> set s. py_isspace c)"
proof
  assume "py_strip s = []"
  then have all: "\<forall>c \<in> set (dropWhile py_isspace s). py_isspace c"
    by (simp add: py_strip_def)
  have "dropWhile py_isspace s = []"
  proof (rule ccontr)
    assume ne: "dropWhile py_isspace s \<noteq> []"
    then have "\<not> py_isspace (hd (dropWhile py_isspace s))"
      by (rule hd_dropWhile)
    with all ne show False by simp
  qed
  then show "\<forall>c \<in> set s. py_isspace c"
    by simp
next
  assume "\<forall>c \<in> set s. py_isspace c"
  then show "py_strip s = []"
    by (auto simp: py_strip_def dest: set_dropWhileD)
qed

lemma map_of_dict_set: "map_of (dict_set k v d) = (map_of d)(k \<mapsto> v)"
  by (induction d) (auto simp: fun_eq_iff)

lemma py_in_sublist: "py_in k s \<longleftrightarrow> sublist k s"
  by (induction s) (simp_all add: sublist_Cons_right)

lemma py_slice_take: "0 \<le> hi \<Longrightarrow> py_slice xs 0 hi = take (nat hi) xs"
  by (simp add: py_slice_def Let_def min_def)

lemma length_TRUNCATED: "length TRUNCATED = 15"
  by (simp add: TRUNCATED_def)

lemma save_content_key:
  "map_of (save_content st memory_key content) memory_key = Some (VStr content)"
  by (simp add: save_content_def Let_def map_of_dict_set)

lemma save_content_resume:
  "looks_like_resume (py_lower memory_key) \<Longrightarrow>
   map_of (save_content st memory_key content) CV_MEMORY_KEY = Some (VStr content)"
  by (simp add: save_content_def Let_def map_of_dict_set)

lemma save_content_jd:
  "looks_like_jd (py_lower memory_key) \<Longrightarrow>
   map_of (save_content st memory_key content) JD_MEMORY_KEY = Some (VStr content)"
  by (simp add: save_content_def Let_def map_of_dict_set)

lemma looks_like_resume_iff:
  "looks_like_resume mk \<longleftrightarrow> (\<exists>k \<in> {''cv'', ''resume'', ''candidate''}. sublist k mk)"
  by (simp add: looks_like_resume_def py_in_sublist)

lemma looks_like_jd_iff:
  "looks_like_jd mk \<longleftrightarrow> (\<exists>k \<in> {''job'', ''jd'', ''description''}. sublist k mk)"
  by (simp add: looks_like_jd_def py_in_sublist)

lemma read_pdf_success:
  assumes "read_pdf fs file_path memory_key max_chars tool_context = (ReadSuccess msg n, tc')"
  shows "\<exists>pages st. fs file_path = Some (Pdf pages) \<and> tool_context = Some st \<and>
           n = int (length (truncated_content (full_content pages) max_chars)) \<and>
           tc' = Some (save_content st memory_key (truncated_content (full_content pages) max_chars))"
  using assms
  by (auto simp: read_pdf_def Let_def split: option.splits pdf_file.splits)

section \<open>Outcomes of the search\<close>

lemma default_keys:
  "keys_to_search cls None st = keys_to_search cls (Some []) st"
  "keys_to_search AdkState None st = Inl AttributeError"
  "keys_to_search PlainDict None st = Inr [k. (k, v) \<leftarrow> st, is_str v]"
proof -
  have "map fst (filter (\<lambda>(k, v). is_str v) st) = [k. (k, v) \<leftarrow> st, is_str v]"
    by (induction st) auto
  then show "keys_to_search PlainDict None st = Inr [k. (k, v) \<leftarrow> st, is_str v]"
    by (simp add: keys_to_search_def state_items_def)
qed (simp_all add: keys_to_search_def state_items_def)

lemma search_memory_outcome:
  "search_memory cls query memory_keys max_snippets snippet_radius tool_context =
     (case tool_context of
        None \<Rightarrow> Inr (SearchError ''Session context missing'')
      | Some st \<Rightarrow>
          if \<forall>c \<in> set query. py_isspace c then Inr (SearchError ''Query string is empty'')
          else (case keys_to_search cls memory_keys st of
                  Inl err \<Rightarrow> Inl err
                | Inr keys \<Rightarrow>
                    Inr (SearchSuccess (py_strip query)
                           (search_keys st (py_strip query) max_snippets snippet_radius keys))))"
  by (cases tool_context) (simp_all add: search_memory_def Let_def py_strip_empty_iff)

lemma search_memory_explicit_keys:
  assumes "memory_keys = Some (k # ks)"
  shows "search_memory cls query memory_keys max_snippets snippet_radius tool_context =
           (if tool_context = None then Inr (SearchError ''Session context missing'')
            else if \<forall>c \<in> set query. py_isspace c then Inr (SearchError ''Query string is empty'')
            else Inr (SearchSuccess (py_strip query)
                        (search_keys (the tool_context) (py_strip query) max_snippets
                           snippet_radius (k # ks))))"
  using assms
  by (cases tool_context) (simp_all add: search_memory_outcome keys_to_search_def)

lemma search_status_explicit_keys:
  "\<exists>res. search_memory cls query (Some (k # ks)) max_snippets snippet_radius tool_context
            = Inr res \<and>
         search_status res =
           (if tool_context = None \<or> (\<forall>c \<in> set query. py_isspace c)
            then ''error'' else ''success'')"
  by (simp add: search_memory_explicit_keys)

lemma search_memory_default_keys_dict:
  assumes "memory_keys = None \<or> memory_keys = Some []"
      and "\<not> (\<forall>c \<in> set query. py_isspace c)"
  shows "search_memory PlainDict query memory_keys max_snippets snippet_radius (Some st) =
           Inr (SearchSuccess (py_strip query)
                  (search_keys st (py_strip query) max_snippets snippet_radius
                     [k. (k, v) \<leftarrow> st, is_str v]))"
  using assms default_keys(1) [of PlainDict st, symmetric] default_keys(3) [of st]
  by (auto simp: search_memory_outcome)

lemma search_memory_default_keys_adk:
  assumes "memory_keys = None \<or> memory_keys = Some []"
      and "\<not> (\<forall>c \<in> set query. py_isspace c)"
  shows "search_memory AdkState query memory_keys max_snippets snippet_radius (Some st) =
           Inl AttributeError"
  using assms default_keys(1) [of AdkState st, symmetric] default_keys(2) [of st]
  by (auto simp: search_memory_outcome)

section \<open>Properties of the evidence search\<close>

text \<open>
  C1. When \<open>search_memory\<close> succeeds (so the stripped query is not empty), the result
  has at most one entry for each key listed for the search, in the order of the list, and
  the match ranges \<open>[start, end)\<close> of an entry, that is, the ranges found in the scan of
  that key, are pairwise non-overlapping and in strictly increasing order from left to
  right.
\<close>

theorem match_ranges_increasing:
  assumes "search_memory cls query memory_keys max_snippets snippet_radius (Some st)
             = Inr (SearchSuccess q matches)"
  shows "(\<exists>keys. keys_to_search cls memory_keys st = Inr keys \<and>
                 subseq (map m_memory_key matches) keys) \<and>
         (\<forall>m \<in> set matches.
            sorted_wrt (\<lambda>a b. s_end a \<le> s_start b \<and> s_start a < s_start b) (m_snippets m))"
proof -
  from search_memory_success [OF assms] obtain keys where
    q: "q \<noteq> []" and
    keys: "keys_to_search cls memory_keys st = Inr keys" and
    matches: "matches = search_keys st q max_snippets snippet_radius keys"
    by auto
  have "sorted_wrt (\<lambda>a b. s_end a \<le> s_start b \<and> s_start a < s_start b) (m_snippets m)"
    if "m \<in> set matches" for m
  proof -
    from search_keys_entry [OF that [unfolded matches]] obtain tx where
      "m_snippets m = scan_loop tx q max_snippets snippet_radius 0 0 []"
      by blast
    moreover have "sorted_wrt ordered_apart (scan_loop tx q max_snippets snippet_radius 0 0 [])"
      using q by (intro scan_loop_ordered) simp_all
    ultimately show ?thesis
      by (simp add: ordered_apart_def [abs_def])
  qed
  moreover have "subseq (map m_memory_key matches) keys"
    unfolding matches by (rule search_keys_keys)
  ultimately show ?thesis
    using keys by blast
qed

theorem match_ranges_increasing_witness:
  "search_memory AdkState '' aa '' (Some [''k'', ''j'']) 5 1
       (Some [(''k'', VStr ''aaabaaaa''), (''j'', VInt 3)])
     = Inr (SearchSuccess ''aa''
         [\<lparr>m_memory_key = ''k'', m_snippets =
            [\<lparr>s_text = ''aaa'', s_start = 0, s_end = 2\<rparr>,
             \<lparr>s_text = ''baaa'', s_start = 4, s_end = 6\<rparr>,
             \<lparr>s_text = ''aaa'', s_start = 6, s_end = 8\<rparr>]\<rparr>])
   \<and> subseq [''k''] [''k'', ''j'']
   \<and> sorted_wrt (\<lambda>a b. s_end a \<le> s_start b \<and> s_start a < s_start b)
         [\<lparr>s_text = ''aaa'', s_start = 0, s_end = 2\<rparr>,
          \<lparr>s_text = ''baaa'', s_start = 4, s_end = 6\<rparr>,
          \<lparr>s_text = ''aaa'', s_start = 6, s_end = 8\<rparr>]"
proof -
  let ?m = "\<lparr>m_memory_key = ''k'', m_snippets =
            [\<lparr>s_text = ''aaa'', s_start = 0, s_end = 2\<rparr>,
             \<lparr>s_text = ''baaa'', s_start = 4, s_end = 6\<rparr>,
             \<lparr>s_text = ''aaa'', s_start = 6, s_end = 8\<rparr>]\<rparr>"
  have run: "search_memory AdkState '' aa '' (Some [''k'', ''j'']) 5 1
               (Some [(''k'', VStr ''aaabaaaa''), (''j'', VInt 3)])
               = Inr (SearchSuccess ''aa'' [?m])"
    by code_simp
  have keys: "keys_to_search AdkState (Some [''k'', ''j''])
                [(''k'', VStr ''aaabaaaa''), (''j'', VInt 3)] = Inr [''k'', ''j'']"
    by (simp add: keys_to_search_def)
  from match_ranges_increasing [OF run] run keys show ?thesis by simp
qed

text \<open>
  C2 (amended). For every snippet that \<open>search_memory\<close> returns for a key, the key holds
  a text in the session state and the offsets satisfy \<open>0 \<le> start \<le> end \<le> length\<close> of
  that text, with the query found at \<open>[start, end)\<close>; the snippet text is a contiguous
  part of the text; and whenever \<open>end + snippet_radius\<close> is not negative (so for every
  non-negative radius) the snippet text is the window of the text from
  \<open>max(0, start - snippet_radius)\<close> to \<open>min(length, end + snippet_radius)\<close>.
\<close>

theorem snippet_offsets_and_window:
  assumes "search_memory cls query memory_keys max_snippets snippet_radius (Some st)
             = Inr (SearchSuccess q matches)"
      and "m \<in> set matches"
      and "sn \<in> set (m_snippets m)"
  shows "\<exists>tx. map_of st (m_memory_key m) = Some (VStr tx) \<and>
           0 \<le> s_start sn \<and> s_start sn \<le> s_end sn \<and> s_end sn \<le> int (length tx) \<and>
           text_window tx (s_start sn) (s_end sn) = q \<and>
           sublist (s_text sn) tx \<and>
           (0 \<le> s_end sn + snippet_radius \<longrightarrow>
              s_text sn = text_window tx (max 0 (s_start sn - snippet_radius))
                            (min (int (length tx)) (s_end sn + snippet_radius)))"
proof -
  from search_memory_success [OF assms(1)] obtain keys where
    matches: "matches = search_keys st q max_snippets snippet_radius keys"
    by auto
  from search_keys_entry [OF assms(2) [unfolded matches]] obtain tx where
    tx: "map_of st (m_memory_key m) = Some (VStr tx)" and
    sn: "m_snippets m = scan_loop tx q max_snippets snippet_radius 0 0 []"
    by blast
  from assms(3) sn have "occurrence tx q snippet_radius 0 sn"
    using scan_loop_elems [of 0 sn tx q max_snippets snippet_radius 0 "[]"] by simp
  then have start: "0 \<le> s_start sn"
    and end_eq: "s_end sn = s_start sn + int (length q)"
    and end_le: "s_end sn \<le> int (length tx)"
    and here: "take (length q) (drop (nat (s_start sn)) tx) = q"
    and snip: "s_text sn = py_slice tx (max 0 (s_start sn - snippet_radius))
                             (min (int (length tx)) (s_end sn + snippet_radius))"
    by (simp_all add: occurrence_def)
  have "text_window tx (s_start sn) (s_end sn) = q"
    using here end_eq by (simp add: text_window_def)
  moreover have "sublist (s_text sn) tx"
    unfolding snip by (rule py_slice_sublist)
  moreover have "s_text sn = text_window tx (max 0 (s_start sn - snippet_radius))
                            (min (int (length tx)) (s_end sn + snippet_radius))"
    if "0 \<le> s_end sn + snippet_radius"
    unfolding snip using that by (intro py_slice_window) simp_all
  ultimately show ?thesis
    using tx start end_eq end_le by auto
qed

theorem snippet_offsets_and_window_witness:
  "search_memory AdkState '' aa '' (Some [''k'', ''j'']) 5 1
       (Some [(''k'', VStr ''aaabaaaa''), (''j'', VInt 3)])
     = Inr (SearchSuccess ''aa''
         [\<lparr>m_memory_key = ''k'', m_snippets =
            [\<lparr>s_text = ''aaa'', s_start = 0, s_end = 2\<rparr>,
             \<lparr>s_text = ''baaa'', s_start = 4, s_end = 6\<rparr>,
             \<lparr>s_text = ''aaa'', s_start = 6, s_end = 8\<rparr>]\<rparr>])
   \<and> text_window ''aaabaaaa'' 4 6 = ''aa''
   \<and> sublist ''baaa'' ''aaabaaaa''
   \<and> ''baaa'' = text_window ''aaabaaaa'' (max 0 (4 - 1)) (min (int (length ''aaabaaaa'')) (6 + 1))"
proof -
  let ?sn = "\<lparr>s_text = ''baaa'', s_start = 4, s_end = 6\<rparr>"
  let ?m = "\<lparr>m_memory_key = ''k'', m_snippets =
            [\<lparr>s_text = ''aaa'', s_start = 0, s_end = 2\<rparr>, ?sn,
             \<lparr>s_text = ''aaa'', s_start = 6, s_end = 8\<rparr>]\<rparr>"
  have run: "search_memory AdkState '' aa '' (Some [''k'', ''j'']) 5 1
               (Some [(''k'', VStr ''aaabaaaa''), (''j'', VInt 3)])
               = Inr (SearchSuccess ''aa'' [?m])"
    by code_simp
  have m: "?m \<in> set [?m]" by simp
  have sn: "?sn \<in> set (m_snippets ?m)" by simp
  from snippet_offsets_and_window [OF run m sn] run show ?thesis
    by (simp add: text_window_def)
qed

text \<open>
  The claim as stated fails for a negative radius: with \<open>snippet_radius = -2\<close> the
  match of \<open>a\<close> at \<open>[0, 1)\<close> in a text of 16 characters has the window end
  \<open>min(16, 1 - 2) = -1\<close>, which the slice counts from the end of the text: the snippet
  is the 13 characters at the offsets 2 to 14, while the window from 2 to -1 is empty.
\<close>

theorem snippet_window_counterexample:
  "search_memory AdkState ''a'' (Some [''k'']) 5 (- 2) (Some [(''k'', VStr ''abcdefghijklmnop'')])
     = Inr (SearchSuccess ''a''
         [\<lparr>m_memory_key = ''k'', m_snippets =
            [\<lparr>s_text = ''cdefghijklmno'', s_start = 0, s_end = 1\<rparr>]\<rparr>])
   \<and> text_window ''abcdefghijklmnop'' (max 0 (0 - (- 2)))
         (min (int (length ''abcdefghijklmnop'')) (1 + (- 2))) = []
   \<and> ''cdefghijklmno'' \<noteq>
       text_window ''abcdefghijklmnop'' (max 0 (0 - (- 2)))
         (min (int (length ''abcdefghijklmnop'')) (1 + (- 2)))"
proof -
  have "search_memory AdkState ''a'' (Some [''k'']) 5 (- 2)
          (Some [(''k'', VStr ''abcdefghijklmnop'')])
     = Inr (SearchSuccess ''a''
         [\<lparr>m_memory_key = ''k'', m_snippets =
            [\<lparr>s_text = ''cdefghijklmno'', s_start = 0, s_end = 1\<rparr>]\<rparr>])"
    by code_simp
  then show ?thesis by (simp add: text_window_def)
qed

text \<open>
  C3. With \<open>max_snippets = 0\<close> the loop still records the first match: the bound is
  tested only after a match has been appended. One match is returned where the claim,
  and the docstring's "maximum number of matches per memory key", allow none. The keys
  are given, so the class of the state object plays no part.
\<close>

theorem max_snippets_zero_returns_one:
  "search_memory cls ''a'' (Some [''k'']) 0 80 (Some [(''k'', VStr ''aa'')])
     = Inr (SearchSuccess ''a''
         [\<lparr>m_memory_key = ''k'', m_snippets = [\<lparr>s_text = ''aa'', s_start = 0, s_end = 1\<rparr>]\<rparr>])"
proof (cases cls)
  case AdkState
  have "search_memory AdkState ''a'' (Some [''k'']) 0 80 (Some [(''k'', VStr ''aa'')])
     = Inr (SearchSuccess ''a''
         [\<lparr>m_memory_key = ''k'', m_snippets = [\<lparr>s_text = ''aa'', s_start = 0, s_end = 1\<rparr>]\<rparr>])"
    by code_simp
  with AdkState show ?thesis by (simp only:)
next
  case PlainDict
  have "search_memory PlainDict ''a'' (Some [''k'']) 0 80 (Some [(''k'', VStr ''aa'')])
     = Inr (SearchSuccess ''a''
         [\<lparr>m_memory_key = ''k'', m_snippets = [\<lparr>s_text = ''aa'', s_start = 0, s_end = 1\<rparr>]\<rparr>])"
    by code_simp
  with PlainDict show ?thesis by (simp only:)
qed

text \<open>
  C4. With a tool context and a query that is not blank, \<open>search_memory\<close> is to return a
  success result. Called without \<open>memory_keys\<close> on the framework's state object it does
  not return: building the default list of keys asks the state for \<open>items()\<close>, which
  raises \<open>AttributeError\<close>. The call is neither of the two error results nor a success.
\<close>

theorem search_memory_raises_without_keys:
  "search_memory AdkState ''cv'' None 5 80 (Some [(''pdf_resume_text'', VStr ''my cv'')])
     = Inl AttributeError"
  by code_simp

text \<open>
  C9. An empty list as \<open>memory_keys\<close> is handled like an omitted argument, but on the
  framework's state object the fall-back to the keys that hold a string is never reached:
  the call raises \<open>AttributeError\<close>. Only on a state that is a plain \<open>dict\<close> does the same
  call search the string-valued keys.
\<close>

theorem empty_keys_raise_on_state:
  "search_memory AdkState ''cv'' (Some []) 5 80
       (Some [(''pdf_resume_text'', VStr ''my cv''), (''n'', VInt 1)])
     = Inl AttributeError
   \<and> search_memory PlainDict ''cv'' (Some []) 5 80
         (Some [(''pdf_resume_text'', VStr ''my cv''), (''n'', VInt 1)])
     = Inr (SearchSuccess ''cv''
         [\<lparr>m_memory_key = ''pdf_resume_text'', m_snippets =
            [\<lparr>s_text = ''my cv'', s_start = 3, s_end = 5\<rparr>]\<rparr>])"
  by code_simp

section \<open>Properties of the PDF reader\<close>

text \<open>
  C5. When \<open>read_pdf\<close> succeeds, the session state holds the stored content under
  \<open>memory_key\<close>; if the lower-cased key contains \<open>cv\<close>, \<open>resume\<close> or \<open>candidate\<close>, the
  same content is also held under \<open>pdf_resume_text\<close>; if it contains \<open>job\<close>, \<open>jd\<close> or
  \<open>description\<close>, the same content is also held under \<open>job_description_text\<close>.
\<close>

theorem alias_write:
  assumes "read_pdf fs file_path memory_key max_chars tool_context = (ReadSuccess msg n, tc')"
  shows "\<exists>st' content.
           tc' = Some st' \<and> map_of st' memory_key = Some (VStr content) \<and>
           ((\<exists>k \<in> {''cv'', ''resume'', ''candidate''}. sublist k (py_lower memory_key))
              \<longrightarrow> map_of st' ''pdf_resume_text'' = Some (VStr content)) \<and>
           ((\<exists>k \<in> {''job'', ''jd'', ''description''}. sublist k (py_lower memory_key))
              \<longrightarrow> map_of st' ''job_description_text'' = Some (VStr content))"
proof -
  from read_pdf_success [OF assms] obtain pages st where
    tc': "tc' = Some (save_content st memory_key (truncated_content (full_content pages) max_chars))"
    by blast
  let ?content = "truncated_content (full_content pages) max_chars"
  let ?st' = "save_content st memory_key ?content"
  have "map_of ?st' memory_key = Some (VStr ?content)"
    by (rule save_content_key)
  moreover have "map_of ?st' ''pdf_resume_text'' = Some (VStr ?content)"
    if "\<exists>k \<in> {''cv'', ''resume'', ''candidate''}. sublist k (py_lower memory_key)"
    using that save_content_resume [of memory_key st ?content]
    unfolding looks_like_resume_iff CV_MEMORY_KEY_def by blast
  moreover have "map_of ?st' ''job_description_text'' = Some (VStr ?content)"
    if "\<exists>k \<in> {''job'', ''jd'', ''description''}. sublist k (py_lower memory_key)"
    using that save_content_jd [of memory_key st ?content]
    unfolding looks_like_jd_iff JD_MEMORY_KEY_def by blast
  ultimately show ?thesis
    using tc' by blast
qed

theorem alias_write_witness:
  "fst (read_pdf [''cv.pdf'' \<mapsto> Pdf [Some '' a  b c '', None, Some ''d'']] ''cv.pdf'' ''My_CV_job'' 400
          (Some [(''x'', VInt 1)])) = ReadSuccess (saved_message ''My_CV_job'') 8
   \<and> sublist ''cv'' (py_lower ''My_CV_job'') \<and> sublist ''job'' (py_lower ''My_CV_job'')
   \<and> (\<exists>st' content.
         snd (read_pdf [''cv.pdf'' \<mapsto> Pdf [Some '' a  b c '', None, Some ''d'']] ''cv.pdf''
                ''My_CV_job'' 400 (Some [(''x'', VInt 1)])) = Some st'
         \<and> map_of st' ''My_CV_job'' = Some (VStr content)
         \<and> map_of st' ''pdf_resume_text'' = Some (VStr content)
         \<and> map_of st' ''job_description_text'' = Some (VStr content))"
proof -
  let ?run = "read_pdf [''cv.pdf'' \<mapsto> Pdf [Some '' a  b c '', None, Some ''d'']] ''cv.pdf''
                ''My_CV_job'' 400 (Some [(''x'', VInt 1)])"
  have res: "fst ?run = ReadSuccess (saved_message ''My_CV_job'') 8"
    by code_simp
  then have run: "?run = (ReadSuccess (saved_message ''My_CV_job'') 8, snd ?run)"
    by (metis prod.collapse)
  have cv: "sublist ''cv'' (py_lower ''My_CV_job'')" by code_simp
  have jd: "sublist ''job'' (py_lower ''My_CV_job'')" by code_simp
  from cv have cv': "\<exists>k \<in> {''cv'', ''resume'', ''candidate''}. sublist k (py_lower ''My_CV_job'')"
    by blast
  from jd have jd': "\<exists>k \<in> {''job'', ''jd'', ''description''}. sublist k (py_lower ''My_CV_job'')"
    by blast
  from alias_write [OF run] cv' jd' res cv jd show ?thesis by blast
qed

text \<open>
  C6. When the file does not exist at the path, or extracting its text raises, \<open>read_pdf\<close>
  returns a result with status \<open>error\<close> and leaves the session state as it was.
\<close>

theorem read_pdf_error_keeps_state:
  assumes "fs file_path = None \<or> (\<exists>exn. fs file_path = Some (Unreadable exn))"
  shows "read_status (fst (read_pdf fs file_path memory_key max_chars tool_context)) = ''error'' \<and>
         snd (read_pdf fs file_path memory_key max_chars tool_context) = tool_context"
  using assms by (auto simp: read_pdf_def)

theorem read_pdf_error_keeps_state_witness:
  "read_status (fst (read_pdf [''cv.pdf'' \<mapsto> Unreadable ''PdfReadError''] ''jd.pdf'' ''k'' 100
                       (Some [(''x'', VInt 1)]))) = ''error''
   \<and> snd (read_pdf [''cv.pdf'' \<mapsto> Unreadable ''PdfReadError''] ''jd.pdf'' ''k'' 100
            (Some [(''x'', VInt 1)])) = Some [(''x'', VInt 1)]
   \<and> read_status (fst (read_pdf [''cv.pdf'' \<mapsto> Unreadable ''PdfReadError''] ''cv.pdf'' ''k'' 100
                       (Some [(''x'', VInt 1)]))) = ''error''
   \<and> snd (read_pdf [''cv.pdf'' \<mapsto> Unreadable ''PdfReadError''] ''cv.pdf'' ''k'' 100
            (Some [(''x'', VInt 1)])) = Some [(''x'', VInt 1)]"
proof -
  let ?fs = "[''cv.pdf'' \<mapsto> Unreadable ''PdfReadError'']"
  have missing: "?fs ''jd.pdf'' = None \<or> (\<exists>exn. ?fs ''jd.pdf'' = Some (Unreadable exn))"
    by simp
  have unreadable: "?fs ''cv.pdf'' = None \<or> (\<exists>exn. ?fs ''cv.pdf'' = Some (Unreadable exn))"
    by simp
  from missing unreadable
       read_pdf_error_keeps_state [of ?fs "''jd.pdf''" "''k''" 100 "Some [(''x'', VInt 1)]"]
       read_pdf_error_keeps_state [of ?fs "''cv.pdf''" "''k''" 100 "Some [(''x'', VInt 1)]"]
  show ?thesis by blast
qed

text \<open>
  C10 (amended). For every successful \<open>read_pdf\<close> call the \<open>extracted_length\<close> of the
  result is the length of the value stored under \<open>memory_key\<close>. When \<open>max_chars\<close> is not
  negative, the stored value is the full extracted text if that has at most \<open>max_chars\<close>
  characters, and otherwise its first \<open>max_chars\<close> characters followed by the marker of
  15 characters; its length is then at most \<open>max_chars + 15\<close>.
\<close>

theorem stored_value_truncation:
  assumes "read_pdf fs file_path memory_key max_chars tool_context = (ReadSuccess msg n, tc')"
  shows "\<exists>pages st' stored.
           fs file_path = Some (Pdf pages) \<and> tc' = Some st' \<and>
           map_of st' memory_key = Some (VStr stored) \<and>
           n = int (length stored) \<and>
           (0 \<le> max_chars \<longrightarrow>
              stored = (if int (length (full_content pages)) \<le> max_chars then full_content pages
                        else take (nat max_chars) (full_content pages) @ ''\<newline>...[TRUNCATED]'') \<and>
              int (length stored) \<le> max_chars + 15)"
proof -
  from read_pdf_success [OF assms] obtain pages st where
    pdf: "fs file_path = Some (Pdf pages)" and
    n: "n = int (length (truncated_content (full_content pages) max_chars))" and
    tc': "tc' = Some (save_content st memory_key (truncated_content (full_content pages) max_chars))"
    by blast
  let ?full = "full_content pages"
  let ?stored = "truncated_content ?full max_chars"
  have stored: "map_of (save_content st memory_key ?stored) memory_key = Some (VStr ?stored)"
    by (rule save_content_key)
  have shape: "?stored = (if int (length ?full) \<le> max_chars then ?full
                         else take (nat max_chars) ?full @ ''\<newline>...[TRUNCATED]'')"
    if "0 \<le> max_chars"
    using that by (simp add: truncated_content_def py_slice_take TRUNCATED_def)
  have bound: "int (length ?stored) \<le> max_chars + 15" if "0 \<le> max_chars"
    using that by (simp add: truncated_content_def py_slice_take length_TRUNCATED)
  from pdf tc' stored n shape bound show ?thesis by blast
qed

theorem stored_value_truncation_witness:
  "fst (read_pdf [''cv.pdf'' \<mapsto> Pdf [Some '' a  b c '', None, Some ''d'']] ''cv.pdf'' ''k'' 4
          (Some [])) = ReadSuccess (saved_message ''k'') 19
   \<and> (\<exists>pages st' stored.
         [''cv.pdf'' \<mapsto> Pdf [Some '' a  b c '', None, Some ''d'']] ''cv.pdf'' = Some (Pdf pages)
         \<and> snd (read_pdf [''cv.pdf'' \<mapsto> Pdf [Some '' a  b c '', None, Some ''d'']] ''cv.pdf''
                  ''k'' 4 (Some [])) = Some st'
         \<and> map_of st' ''k'' = Some (VStr stored)
         \<and> 19 = int (length stored)
         \<and> stored = (if int (length (full_content pages)) \<le> 4 then full_content pages
                      else take (nat 4) (full_content pages) @ ''\<newline>...[TRUNCATED]'')
         \<and> int (length stored) \<le> 4 + 15)"
proof -
  let ?run = "read_pdf [''cv.pdf'' \<mapsto> Pdf [Some '' a  b c '', None, Some ''d'']] ''cv.pdf''
                ''k'' 4 (Some [])"
  have res: "fst ?run = ReadSuccess (saved_message ''k'') 19"
    by code_simp
  then have run: "?run = (ReadSuccess (saved_message ''k'') 19, snd ?run)"
    by (metis prod.collapse)
  have "(0::int) \<le> 4" by simp
  with stored_value_truncation [OF run] res show ?thesis by blast
qed

text \<open>
  The claim as stated fails for a negative \<open>max_chars\<close>: with \<open>max_chars = -1\<close> and the
  extracted text \<open>abc\<close>, the slice drops the last character and the stored value is
  \<open>ab\<close> followed by the marker, 17 characters, which is more than \<open>max_chars + 15\<close> and
  is not the first \<open>max_chars\<close> characters followed by the marker.
\<close>

theorem stored_value_truncation_counterexample:
  "read_status (fst (read_pdf [''cv.pdf'' \<mapsto> Pdf [Some ''abc'']] ''cv.pdf'' ''k'' (- 1) (Some [])))
     = ''success''
   \<and> snd (read_pdf [''cv.pdf'' \<mapsto> Pdf [Some ''abc'']] ''cv.pdf'' ''k'' (- 1) (Some []))
       = Some [(''k'', VStr ''ab\<newline>...[TRUNCATED]'')]
   \<and> full_content [Some ''abc''] = ''abc''
   \<and> \<not> int (length ''abc'') \<le> - 1
   \<and> ''ab\<newline>...[TRUNCATED]'' \<noteq> take (nat (- 1)) ''abc'' @ ''\<newline>...[TRUNCATED]''
   \<and> \<not> int (length ''ab\<newline>...[TRUNCATED]'') \<le> - 1 + 15"
  by code_simp

section \<open>Properties of the agent tree and of session setup\<close>

text \<open>
  C7. The agents of the tree under \<open>root_agent\<close> that call the model are the four
  reasoning agents, and the model of each carries the one shared \<open>retry_config\<close>:
  5 attempts, exponential base 7, initial delay 1, retried status codes 429, 500, 503
  and 504.
\<close>

theorem retry_policy_shared:
  "map agent_name (llm_agents root_agent)
     = [''cv_loader_agent'', ''jd_loader_agent'', ''cv_screening_agent'', ''talent_matching_agent'']
   \<and> map (\<lambda>a. retry_options (agent_model a)) (llm_agents root_agent)
       = [Some retry_config, Some retry_config, Some retry_config, Some retry_config]
   \<and> attempts retry_config = 5 \<and> exp_base retry_config = 7 \<and> initial_delay retry_config = 1
   \<and> set (http_status_codes retry_config) = {429, 500, 503, 504}"
  by (simp add: root_agent_def write_parallel_agent_def cv_loader_agent_def jd_loader_agent_def
        cv_screening_agent_def talent_matching_agent_def retry_config_def)

text \<open>
  C8. The get-or-create sequence is idempotent: running it again on the service it left
  behind returns the same session and the same service. The session it returns is the
  one then stored under the identifier, and a session that already exists is returned as
  it is, with its state, and the service is left unchanged.
\<close>

theorem ensure_session_idempotent:
  "ensure_session (snd (ensure_session svc app user sid)) app user sid
     = ensure_session svc app user sid
   \<and> get_session (snd (ensure_session svc app user sid)) app user sid
       = Some (fst (ensure_session svc app user sid))
   \<and> (get_session svc app user sid = Some s \<longrightarrow> ensure_session svc app user sid = (s, svc))"
  by (cases "svc (app, user, sid)")
     (simp_all add: ensure_session_def get_session_def create_session_def Let_def)

theorem ensure_session_idempotent_witness:
  "main_session_setup
     [(''rolefit_analyzer_agent'', ''debug_user_id'', ''debug_session_id'') \<mapsto>
        \<lparr>app_name = ''rolefit_analyzer_agent'', user_id = ''debug_user_id'',
         session_id = ''debug_session_id'',
         session_state = [(''file_path_cv'', VStr ''cv.pdf'')]\<rparr>]
   = (\<lparr>app_name = ''rolefit_analyzer_agent'', user_id = ''debug_user_id'',
       session_id = ''debug_session_id'',
       session_state = [(''file_path_cv'', VStr ''cv.pdf'')]\<rparr>,
      [(''rolefit_analyzer_agent'', ''debug_user_id'', ''debug_session_id'') \<mapsto>
        \<lparr>app_name = ''rolefit_analyzer_agent'', user_id = ''debug_user_id'',
         session_id = ''debug_session_id'',
         session_state = [(''file_path_cv'', VStr ''cv.pdf'')]\<rparr>])"
proof -
  let ?s = "\<lparr>app_name = ''rolefit_analyzer_agent'', user_id = ''debug_user_id'',
         session_id = ''debug_session_id'',
         session_state = [(''file_path_cv'', VStr ''cv.pdf'')]\<rparr>"
  let ?svc = "[(''rolefit_analyzer_agent'', ''debug_user_id'', ''debug_session_id'') \<mapsto> ?s]"
  have "get_session ?svc ''rolefit_analyzer_agent'' ''debug_user_id'' ''debug_session_id'' = Some ?s"
    by (simp add: get_session_def)
  with ensure_session_idempotent [of ?svc "''rolefit_analyzer_agent''" "''debug_user_id''"
      "''debug_session_id''" ?s]
  show ?thesis by (simp add: main_session_setup_def APP_NAME_def)
qed

end
